theory Spec2Isabelle
  imports Complex_Main
begin

section \<open>JavaScript values\<close>

text \<open>
  The values the server handles: what a socket.io event carries (parsed JSON) and what
  the server builds from it. A number is an IEEE double: a finite value (kept as a
  rational, which is exact for every comparison made here), an infinity or NaN.
  An object is the list of its own properties in insertion order; the first entry of a
  name is the property of that name.
\<close>

datatype jsnum = Fin rat | PosInf | NegInf | NaN

datatype jsval =
    JUndefined
  | JNull
  | JBool bool
  | JNum jsnum
  | JStr string
  | JArr "jsval list"
  | JObj "(string \<times> jsval) list"

type_synonym jsobj = "(string \<times> jsval) list"

datatype error = TypeError

text \<open>\<^verbatim>\<open>a < b\<close> on numbers: false whenever an operand is NaN.\<close>

fun jsLess :: "jsnum \<Rightarrow> jsnum \<Rightarrow> bool" where
  "jsLess NaN _ = False"
| "jsLess _ NaN = False"
| "jsLess (Fin a) (Fin b) = (a < b)"
| "jsLess (Fin a) PosInf = True"
| "jsLess (Fin a) NegInf = False"
| "jsLess PosInf _ = False"
| "jsLess NegInf NegInf = False"
| "jsLess NegInf _ = True"

fun isFinite :: "jsnum \<Rightarrow> bool" where
  "isFinite (Fin a) = True"
| "isFinite _ = False"

text \<open>The \<^verbatim>\<open>typeof\<close> operator.\<close>

fun typeof :: "jsval \<Rightarrow> string" where
  "typeof JUndefined = ''undefined''"
| "typeof JNull = ''object''"
| "typeof (JBool b) = ''boolean''"
| "typeof (JNum n) = ''number''"
| "typeof (JStr s) = ''string''"
| "typeof (JArr xs) = ''object''"
| "typeof (JObj kvs) = ''object''"

text \<open>Truthiness, as \<^verbatim>\<open>!v\<close> and \<^verbatim>\<open>if (v)\<close> read it.\<close>

fun truthy :: "jsval \<Rightarrow> bool" where
  "truthy JUndefined = False"
| "truthy JNull = False"
| "truthy (JBool b) = b"
| "truthy (JNum (Fin a)) = (a \<noteq> 0)"
| "truthy (JNum NaN) = False"
| "truthy (JNum _) = True"
| "truthy (JStr s) = (s \<noteq> [])"
| "truthy (JArr xs) = True"
| "truthy (JObj kvs) = True"

text \<open>
  Reading a property \<^verbatim>\<open>v.name\<close>. On \<^verbatim>\<open>undefined\<close> and \<^verbatim>\<open>null\<close> the read throws
  a TypeError. Otherwise it gives the own property, or \<^verbatim>\<open>undefined\<close>: the names this
  program reads on payloads (points, tool, strokeWidth, color, x, y, id) are defined on
  no built-in prototype, so only an own property can answer.
\<close>

fun getProp :: "jsval \<Rightarrow> string \<Rightarrow> error + jsval" where
  "getProp JUndefined name = Inl TypeError"
| "getProp JNull name = Inl TypeError"
| "getProp (JObj kvs) name = Inr (case map_of kvs name of Some v \<Rightarrow> v | None \<Rightarrow> JUndefined)"
| "getProp _ name = Inr JUndefined"

text \<open>The same read where the receiver is known to be neither undefined nor null.\<close>

fun readProp :: "jsval \<Rightarrow> string \<Rightarrow> jsval" where
  "readProp (JObj kvs) name = (case map_of kvs name of Some v \<Rightarrow> v | None \<Rightarrow> JUndefined)"
| "readProp _ name = JUndefined"

fun isArray :: "jsval \<Rightarrow> bool" where
  "isArray (JArr xs) = True"
| "isArray _ = False"

fun elements :: "jsval \<Rightarrow> jsval list" where
  "elements (JArr xs) = xs"
| "elements _ = []"

fun isFiniteNumber :: "jsval \<Rightarrow> bool" where
  "isFiniteNumber (JNum n) = isFinite n"
| "isFiniteNumber _ = False"

section \<open>Validation of a draw payload (server.js)\<close>

definition isHexDigit :: "char \<Rightarrow> bool" where
  "isHexDigit c = (c \<in> set ''0123456789ABCDEFabcdef'')"

text \<open>The regular expression \<^verbatim>\<open>/^#[0-9A-Fa-f]{6}$/\<close>, tested on a string.\<close>

fun colorPattern :: "string \<Rightarrow> bool" where
  "colorPattern [] = False"
| "colorPattern (c # cs) = (c = CHR ''#'' \<and> length cs = 6 \<and> list_all isHexDigit cs)"

text \<open>
  The loop over \<^verbatim>\<open>data.points\<close>: it returns false at the first point whose x or y is
  not a finite number, and throws at a point that is null or undefined, whichever
  comes first.
\<close>

fun validatePoints :: "jsval list \<Rightarrow> error + bool" where
  "validatePoints [] = Inr True"
| "validatePoints (point # rest) =
     (case getProp point ''x'' of
        Inl e \<Rightarrow> Inl e
      | Inr x \<Rightarrow>
          if typeof x \<noteq> ''number'' then Inr False
          else (case getProp point ''y'' of
              Inl e \<Rightarrow> Inl e
            | Inr y \<Rightarrow>
                if typeof y \<noteq> ''number'' then Inr False
                else if \<not> isFiniteNumber x then Inr False
                else if \<not> isFiniteNumber y then Inr False
                else validatePoints rest))"

definition validTools :: "string list" where
  "validTools = [''brush'', ''eraser'']"

definition strokeWidthOf :: "jsval \<Rightarrow> jsnum" where
  "strokeWidthOf v = (case v of JNum n \<Rightarrow> n | _ \<Rightarrow> NaN)"

definition textOf :: "jsval \<Rightarrow> string" where
  "textOf v = (case v of JStr s \<Rightarrow> s | _ \<Rightarrow> [])"

text \<open>
  \<^verbatim>\<open>validateDrawingData(data)\<close>. Each \<^verbatim>\<open>a || b\<close> of the source is two tests in a
  row, in the source's order. After the first two tests \<^verbatim>\<open>data\<close> is an object or an
  array, so the reads of its properties cannot throw; the reads in the loop over the
  points can.
\<close>

definition validateDrawingData :: "jsval \<Rightarrow> error + bool" where
  "validateDrawingData data =
     (if \<not> truthy data then Inr False
      else if typeof data \<noteq> ''object'' then Inr False
      else if \<not> isArray (readProp data ''points'') then Inr False
      else if length (elements (readProp data ''points'')) = 0 then Inr False
      else if typeof (readProp data ''tool'') \<noteq> ''string'' then Inr False
      else if typeof (readProp data ''strokeWidth'') \<noteq> ''number'' then Inr False
      else if textOf (readProp data ''tool'') \<notin> set validTools then Inr False
      else if jsLess (strokeWidthOf (readProp data ''strokeWidth'')) (Fin 1) then Inr False
      else if jsLess (Fin 50) (strokeWidthOf (readProp data ''strokeWidth'')) then Inr False
      else if textOf (readProp data ''tool'') \<noteq> ''eraser''
            \<and> typeof (readProp data ''color'') \<noteq> ''string'' then Inr False
      else if textOf (readProp data ''tool'') \<noteq> ''eraser''
            \<and> \<not> colorPattern (textOf (readProp data ''color'')) then Inr False
      else validatePoints (elements (readProp data ''points'')))"

section \<open>The room ledger (drawing-state.js)\<close>

text \<open>
  An operation is an object. The ledger reads \<^verbatim>\<open>operation.id\<close> and uses it as a
  property name of the index. Every operation the draw handler builds has a string
  there, and that string is the name; an operation with no id gives the name
  \<^verbatim>\<open>undefined\<close>. An id of another type, which JavaScript would convert to
  text, is not modelled: it is read here like a missing id, and every fact below that
  depends on which ids are equal is stated for operations with string ids.
\<close>

definition idKey :: "jsobj \<Rightarrow> string" where
  "idKey operation = (case map_of operation ''id'' of Some (JStr s) \<Rightarrow> s | _ \<Rightarrow> ''undefined'')"

text \<open>
  \<^verbatim>\<open>operationIndex\<close> is a plain object literal \<^verbatim>\<open>{}\<close>, so its prototype is
  \<^verbatim>\<open>Object.prototype\<close>. The model keeps its own properties as a map and writes out
  what the prototype adds:
  \<^item> a read \<^verbatim>\<open>index[k]\<close> gives the own property; failing that, for a name defined on
    \<^verbatim>\<open>Object.prototype\<close>, the inherited function or object; otherwise undefined;
  \<^item> a write \<^verbatim>\<open>index[k] = n\<close> creates or updates the own property, except for the name
    \<^verbatim>\<open>__proto__\<close>, whose inherited setter ignores a number and stores nothing;
  \<^item> \<^verbatim>\<open>delete index[k]\<close> removes the own property, if any.
\<close>

type_synonym index = "string \<Rightarrow> nat option"

definition objectPrototypeNames :: "string list" where
  "objectPrototypeNames =
     [''constructor'', ''__defineGetter__'', ''__defineSetter__'', ''hasOwnProperty'',
      ''__lookupGetter__'', ''__lookupSetter__'', ''isPrototypeOf'',
      ''propertyIsEnumerable'', ''toString'', ''valueOf'', ''__proto__'',
      ''toLocaleString'']"

datatype indexed = Undefined | Position nat | Inherited

definition indexRead :: "index \<Rightarrow> string \<Rightarrow> indexed" where
  "indexRead idx k =
     (case idx k of
        Some i \<Rightarrow> Position i
      | None \<Rightarrow> if k \<in> set objectPrototypeNames then Inherited else Undefined)"

definition indexWrite :: "index \<Rightarrow> string \<Rightarrow> nat \<Rightarrow> index" where
  "indexWrite idx k i = (if k = ''__proto__'' then idx else idx(k \<mapsto> i))"

definition indexDelete :: "index \<Rightarrow> string \<Rightarrow> index" where
  "indexDelete idx k = idx(k := None)"

text \<open>
  \<^verbatim>\<open>operations.splice(index, 1)\<close>. The start is converted to an integer: a number is
  itself, and an inherited function or object converts to NaN and so to 0. A start at
  or beyond the length removes nothing.
\<close>

fun spliceStart :: "indexed \<Rightarrow> nat" where
  "spliceStart (Position i) = i"
| "spliceStart Inherited = 0"
| "spliceStart Undefined = 0"

definition splice1 :: "nat \<Rightarrow> 'a list \<Rightarrow> 'a list" where
  "splice1 start xs = take start xs @ drop (Suc start) xs"

record roomState =
  operations :: "jsobj list"
  undoStack :: "jsobj list"
  operationIndex :: index

definition newRoomState :: roomState where
  "newRoomState = \<lparr>operations = [], undoStack = [], operationIndex = Map.empty\<rparr>"

text \<open>The bodies of the methods, on the room's state object.\<close>

definition addOperationTo :: "roomState \<Rightarrow> jsobj \<Rightarrow> roomState" where
  "addOperationTo state operation =
     state\<lparr>undoStack := [],
           operations := operations state @ [operation],
           operationIndex :=
             indexWrite (operationIndex state) (idKey operation)
               (length (operations state @ [operation]) - 1)\<rparr>"

definition undoIn :: "roomState \<Rightarrow> jsobj option \<times> roomState" where
  "undoIn state =
     (if length (operations state) = 0 then (None, state)
      else
        let operation = last (operations state) in
        (Some operation,
         state\<lparr>operations := butlast (operations state),
               undoStack := undoStack state @ [operation],
               operationIndex := indexDelete (operationIndex state) (idKey operation)\<rparr>))"

definition redoIn :: "roomState \<Rightarrow> jsobj option \<times> roomState" where
  "redoIn state =
     (if length (undoStack state) = 0 then (None, state)
      else
        let operation = last (undoStack state) in
        (Some operation,
         state\<lparr>undoStack := butlast (undoStack state),
               operations := operations state @ [operation],
               operationIndex :=
                 indexWrite (operationIndex state) (idKey operation)
                   (length (operations state @ [operation]) - 1)\<rparr>))"

definition clearStateIn :: "roomState \<Rightarrow> roomState" where
  "clearStateIn state = state\<lparr>operations := [], undoStack := [], operationIndex := Map.empty\<rparr>"

text \<open>\<^verbatim>\<open>_rebuildIndex\<close>: a fresh object, then one write per operation, in order.\<close>

fun rebuildFrom :: "nat \<Rightarrow> jsobj list \<Rightarrow> index \<Rightarrow> index" where
  "rebuildFrom i [] idx = idx"
| "rebuildFrom i (operation # rest) idx = rebuildFrom (Suc i) rest (indexWrite idx (idKey operation) i)"

definition rebuildIndex :: "roomState \<Rightarrow> roomState" where
  "rebuildIndex state = state\<lparr>operationIndex := rebuildFrom 0 (operations state) Map.empty\<rparr>"

definition removeOperationIn :: "roomState \<Rightarrow> string \<Rightarrow> roomState" where
  "removeOperationIn state operationId =
     (case indexRead (operationIndex state) operationId of
        Undefined \<Rightarrow> state
      | found \<Rightarrow>
          rebuildIndex
            (state\<lparr>operations := splice1 (spliceStart found) (operations state),
                   operationIndex := indexDelete (operationIndex state) operationId\<rparr>))"

text \<open>
  The manager: \<^verbatim>\<open>roomStates\<close> maps a room id to its state object, created on first
  use by \<^verbatim>\<open>_getRoomState\<close>. Each method returns its result and the manager after the
  call.
\<close>

type_synonym manager = "string \<Rightarrow> roomState option"

definition getRoomState :: "manager \<Rightarrow> string \<Rightarrow> roomState \<times> manager" where
  "getRoomState m roomId =
     (case m roomId of
        None \<Rightarrow> (newRoomState, m(roomId \<mapsto> newRoomState))
      | Some state \<Rightarrow> (state, m))"

definition getState :: "manager \<Rightarrow> string \<Rightarrow> roomState \<times> manager" where
  "getState m roomId = getRoomState m roomId"

definition addOperation :: "manager \<Rightarrow> string \<Rightarrow> jsobj \<Rightarrow> jsobj \<times> manager" where
  "addOperation m roomId operation =
     (let (state, m1) = getRoomState m roomId
      in (operation, m1(roomId \<mapsto> addOperationTo state operation)))"

definition undo :: "manager \<Rightarrow> string \<Rightarrow> jsobj option \<times> manager" where
  "undo m roomId =
     (let (state, m1) = getRoomState m roomId; (result, state1) = undoIn state
      in (result, m1(roomId \<mapsto> state1)))"

definition redo :: "manager \<Rightarrow> string \<Rightarrow> jsobj option \<times> manager" where
  "redo m roomId =
     (let (state, m1) = getRoomState m roomId; (result, state1) = redoIn state
      in (result, m1(roomId \<mapsto> state1)))"

definition clearState :: "manager \<Rightarrow> string \<Rightarrow> manager" where
  "clearState m roomId =
     (let (state, m1) = getRoomState m roomId in m1(roomId \<mapsto> clearStateIn state))"

definition removeOperation :: "manager \<Rightarrow> string \<Rightarrow> string \<Rightarrow> manager" where
  "removeOperation m roomId operationId =
     (let (state, m1) = getRoomState m roomId in m1(roomId \<mapsto> removeOperationIn state operationId))"

text \<open>The ledger of a room as a caller sees it: what \<^verbatim>\<open>getState\<close> returns.\<close>

definition ledger :: "manager \<Rightarrow> string \<Rightarrow> roomState" where
  "ledger m roomId = fst (getState m roomId)"

section \<open>The socket handlers (server.js)\<close>

text \<open>
  A connected socket: its id and \<^verbatim>\<open>Array.from(socket.rooms)\<close>, the rooms it is in,
  in the order it entered them (socket.io puts every socket in a room named by its id).
\<close>

record socket =
  socketId :: string
  socketRooms :: "string list"

text \<open>
  \<^verbatim>\<open>rooms.find(room => room !== socket.id) || 'default-room'\<close>: the first room that
  is not the socket's own; the default when there is none or its name is empty.
\<close>

definition roomOf :: "socket \<Rightarrow> string" where
  "roomOf s =
     (case find (\<lambda>room. room \<noteq> socketId s) (socketRooms s) of
        None \<Rightarrow> ''default-room''
      | Some room \<Rightarrow> if room = [] then ''default-room'' else room)"

text \<open>
  What a handler sends: \<^verbatim>\<open>socket.to(room).emit(event, ...args)\<close> or
  \<^verbatim>\<open>io.to(room).emit(event, ...args)\<close>.
\<close>

datatype target = SocketTo string string | IoTo string

record emission =
  target :: target
  event :: string
  args :: "jsval list"



text \<open>
  What the draw handler takes from outside: the two results of \<^verbatim>\<open>Date.now()\<close>, in
  the order of the calls (milliseconds), and the text of \<^verbatim>\<open>Math.random()\<close> as the
  template literal renders it.
\<close>

record clock =
  now1 :: nat
  now2 :: nat
  randomText :: string

text \<open>A non-negative integer as the template literal renders it: decimal digits.\<close>

fun decimal :: "nat \<Rightarrow> string" where
  "decimal n =
     (if n < 10 then [''0123456789'' ! n]
      else decimal (n div 10) @ [''0123456789'' ! (n mod 10)])"

declare decimal.simps [simp del]

text \<open>
  The own enumerable properties that \<^verbatim>\<open>{...data}\<close> copies: those of an object; the
  indexed elements of an array or characters of a string; none of any other value.
\<close>

fun ownProperties :: "jsval \<Rightarrow> jsobj" where
  "ownProperties (JObj kvs) = kvs"
| "ownProperties (JArr xs) = zip (map decimal [0..<length xs]) xs"
| "ownProperties (JStr s) = zip (map decimal [0..<length s]) (map (\<lambda>c. JStr [c]) s)"
| "ownProperties _ = []"

text \<open>
  A property of an object literal after a spread: it replaces the value of a property of
  that name in place, or is added at the end.
\<close>

fun setProp :: "jsobj \<Rightarrow> string \<Rightarrow> jsval \<Rightarrow> jsobj" where
  "setProp [] name v = [(name, v)]"
| "setProp ((name', v') # kvs) name v =
     (if name' = name then (name, v) # kvs else (name', v') # setProp kvs name v)"

text \<open>
  \<^verbatim>\<open>{...data, userId: socket.id, timestamp: Date.now(),
     id: `${socket.id}-${Date.now()}-${Math.random()}`}\<close>
\<close>

definition stamp :: "clock \<Rightarrow> socket \<Rightarrow> jsval \<Rightarrow> jsobj" where
  "stamp clk s data =
     setProp
       (setProp
          (setProp (ownProperties data) ''userId'' (JStr (socketId s)))
          ''timestamp'' (JNum (Fin (of_nat (now1 clk)))))
       ''id'' (JStr (socketId s @ ''-'' @ decimal (now2 clk) @ ''-'' @ randomText clk))"

text \<open>
  The handlers. Each returns the manager after the call and what it emitted; the draw
  handler can also end in the exception that validation threw.
\<close>

definition onDraw :: "clock \<Rightarrow> socket \<Rightarrow> jsval \<Rightarrow> manager \<Rightarrow> error + (manager \<times> emission list)" where
  "onDraw clk s data m =
     (let roomId = roomOf s in
      case validateDrawingData data of
        Inl e \<Rightarrow> Inl e
      | Inr False \<Rightarrow> Inr (m, [])
      | Inr True \<Rightarrow>
          let operation = stamp clk s data;
              (stored, m1) = addOperation m roomId operation
          in Inr (m1, [\<lparr>target = SocketTo (socketId s) roomId, event = ''draw'',
                        args = [JObj operation]\<rparr>]))"

definition onUndo :: "socket \<Rightarrow> manager \<Rightarrow> manager \<times> emission list" where
  "onUndo s m =
     (let roomId = roomOf s;
          (undoneOperation, m1) = undo m roomId
      in case undoneOperation of
           None \<Rightarrow> (m1, [])
         | Some operation \<Rightarrow>
             (m1, [\<lparr>target = IoTo roomId, event = ''undo'',
                    args = [JObj [(''operationId'', readProp (JObj operation) ''id'')]]\<rparr>]))"

definition onRedo :: "socket \<Rightarrow> manager \<Rightarrow> manager \<times> emission list" where
  "onRedo s m =
     (let roomId = roomOf s;
          (redoneOperation, m1) = redo m roomId
      in case redoneOperation of
           None \<Rightarrow> (m1, [])
         | Some operation \<Rightarrow>
             (m1, [\<lparr>target = IoTo roomId, event = ''redo'',
                    args = [JObj [(''operation'', JObj operation)]]\<rparr>]))"


section \<open>Sequences of calls\<close>

text \<open>
  The calls a client of the manager can make, and the manager reached from a fresh one
  (\<^verbatim>\<open>new DrawingStateManager()\<close>) by a sequence of them.
\<close>

datatype call =
    AddOperation string jsobj
  | Undo string
  | Redo string
  | RemoveOperation string string
  | ClearState string
  | GetState string

fun perform :: "manager \<Rightarrow> call \<Rightarrow> manager" where
  "perform m (AddOperation roomId operation) = snd (addOperation m roomId operation)"
| "perform m (Undo roomId) = snd (undo m roomId)"
| "perform m (Redo roomId) = snd (redo m roomId)"
| "perform m (RemoveOperation roomId operationId) = removeOperation m roomId operationId"
| "perform m (ClearState roomId) = clearState m roomId"
| "perform m (GetState roomId) = snd (getState m roomId)"

definition run :: "call list \<Rightarrow> manager" where
  "run calls = foldl perform Map.empty calls"

text \<open>
  The index has no own property named \<^verbatim>\<open>__proto__\<close>. No write of the ledger creates
  one, so this holds of every state the manager reaches.
\<close>

definition protoFree :: "roomState \<Rightarrow> bool" where
  "protoFree st = (operationIndex st ''__proto__'' = None)"

section \<open>The specification's validation predicate\<close>

text \<open>
  Acceptance as the specification words it: points is a non-empty sequence in which
  every point has finite numeric x and y, tool is brush or eraser, strokeWidth is a
  number in [1, 50], and unless tool is eraser, color is a \<^verbatim>\<open>#\<close> followed by six
  hexadecimal digits of either case.
\<close>

definition specPoint :: "jsval \<Rightarrow> bool" where
  "specPoint p = (isFiniteNumber (readProp p ''x'') \<and> isFiniteNumber (readProp p ''y''))"

definition specStrokeWidth :: "jsval \<Rightarrow> bool" where
  "specStrokeWidth w = (case w of JNum (Fin a) \<Rightarrow> 1 \<le> a \<and> a \<le> 50 | _ \<Rightarrow> False)"

definition specColor :: "jsval \<Rightarrow> bool" where
  "specColor c =
     (case c of
        JStr s \<Rightarrow> length s = 7 \<and> hd s = CHR ''#''
                  \<and> list_all (\<lambda>ch. ch \<in> set ''0123456789'' \<or> ch \<in> set ''abcdef''
                                   \<or> ch \<in> set ''ABCDEF'') (tl s)
      | _ \<Rightarrow> False)"

definition specAccepts :: "jsval \<Rightarrow> bool" where
  "specAccepts data =
     (isArray (readProp data ''points'')
      \<and> elements (readProp data ''points'') \<noteq> []
      \<and> list_all specPoint (elements (readProp data ''points''))
      \<and> (readProp data ''tool'' = JStr ''brush'' \<or> readProp data ''tool'' = JStr ''eraser'')
      \<and> specStrokeWidth (readProp data ''strokeWidth'')
      \<and> (if readProp data ''tool'' = JStr ''eraser'' then True
          else specColor (readProp data ''color'')))"

section \<open>The index invariant\<close>

text \<open>
  The index agrees with the operations: every entry of the index points at an operation
  of that id, and every operation is found under its id at its own position.
\<close>

definition consistent :: "jsobj list \<Rightarrow> index \<Rightarrow> bool" where
  "consistent ops idx =
     ((\<forall>k i. idx k = Some i \<longrightarrow> i < length ops \<and> idKey (ops ! i) = k)
      \<and> (\<forall>i < length ops. idx (idKey (ops ! i)) = Some i))"

definition indexConsistent :: "roomState \<Rightarrow> bool" where
  "indexConsistent st = consistent (operations st) (operationIndex st)"

text \<open>The ids of the operations that a sequence of calls adds to a room, in order.\<close>

fun addedTo :: "string \<Rightarrow> call list \<Rightarrow> string list" where
  "addedTo r [] = []"
| "addedTo r (AddOperation r' a # calls) =
     (if r' = r then idKey a # addedTo r calls else addedTo r calls)"
| "addedTo r (c # calls) = addedTo r calls"

text \<open>
  The operations that a sequence of calls adds to a room, and the operations whose id
  is a string: the ones for which \<open>idKey\<close> is the property name that JavaScript
  uses. The facts below about ids are stated for these only.
\<close>

fun addedOps :: "string \<Rightarrow> call list \<Rightarrow> jsobj list" where
  "addedOps r [] = []"
| "addedOps r (AddOperation r' a # calls) =
     (if r' = r then a # addedOps r calls else addedOps r calls)"
| "addedOps r (c # calls) = addedOps r calls"

definition hasStringId :: "jsobj \<Rightarrow> bool" where
  "hasStringId operation = (case map_of operation ''id'' of Some (JStr s) \<Rightarrow> True | _ \<Rightarrow> False)"

text \<open>
  What the proof of the invariant carries along: the operations and the undo stack hold
  operations with string ids, which are distinct and among those added so far, and
  none is \<^verbatim>\<open>__proto__\<close>.
\<close>

definition ledgerInv :: "string set \<Rightarrow> roomState \<Rightarrow> bool" where
  "ledgerInv A st =
     (indexConsistent st
      \<and> list_all hasStringId (operations st @ undoStack st)
      \<and> distinct (map idKey (operations st @ undoStack st))
      \<and> set (map idKey (operations st @ undoStack st)) \<subseteq> A
      \<and> ''__proto__'' \<notin> A)"

section \<open>The manager in terms of the ledger of a room\<close>

lemma ledger_alt: "ledger m r = (case m r of None \<Rightarrow> newRoomState | Some st \<Rightarrow> st)"
  by (simp add: ledger_def getState_def getRoomState_def split: option.splits)

lemma ledger_upd: "ledger (m(r \<mapsto> st)) r' = (if r' = r then st else ledger m r')"
  by (simp add: ledger_alt)

lemma getRoomState_eq: "getRoomState m r = (ledger m r, m(r \<mapsto> ledger m r))"
  by (auto simp: ledger_alt getRoomState_def split: option.splits)

lemma addOperation_eq: "addOperation m r a = (a, m(r \<mapsto> addOperationTo (ledger m r) a))"
  by (simp add: addOperation_def getRoomState_eq)

lemma undo_eq: "undo m r = (fst (undoIn (ledger m r)), m(r \<mapsto> snd (undoIn (ledger m r))))"
  by (simp add: undo_def getRoomState_eq split: prod.splits)

lemma redo_eq: "redo m r = (fst (redoIn (ledger m r)), m(r \<mapsto> snd (redoIn (ledger m r))))"
  by (simp add: redo_def getRoomState_eq split: prod.splits)

lemma clearState_eq: "clearState m r = m(r \<mapsto> clearStateIn (ledger m r))"
  by (simp add: clearState_def getRoomState_eq)

lemma removeOperation_eq: "removeOperation m r x = m(r \<mapsto> removeOperationIn (ledger m r) x)"
  by (simp add: removeOperation_def getRoomState_eq)

lemma getState_eq: "getState m r = (ledger m r, m(r \<mapsto> ledger m r))"
  by (simp add: getState_def getRoomState_eq)

lemma run_snoc: "run (calls @ [c]) = perform (run calls) c"
  by (simp add: run_def)

lemma run_Nil: "run [] = Map.empty"
  by (simp add: run_def)

lemma perform_eq:
  "perform m (AddOperation r a) = m(r \<mapsto> addOperationTo (ledger m r) a)"
  "perform m (Undo r) = m(r \<mapsto> snd (undoIn (ledger m r)))"
  "perform m (Redo r) = m(r \<mapsto> snd (redoIn (ledger m r)))"
  "perform m (RemoveOperation r x) = m(r \<mapsto> removeOperationIn (ledger m r) x)"
  "perform m (ClearState r) = m(r \<mapsto> clearStateIn (ledger m r))"
  "perform m (GetState r) = m(r \<mapsto> ledger m r)"
  by (simp_all add: addOperation_eq undo_eq redo_eq removeOperation_eq clearState_eq getState_eq)

lemma rebuildFrom_proto: "rebuildFrom i ops idx ''__proto__'' = idx ''__proto__''"
  by (induction ops arbitrary: i idx) (simp_all add: indexWrite_def)

lemma protoFree_new: "protoFree newRoomState"
  by (simp add: protoFree_def newRoomState_def)

lemma protoFree_add: "protoFree st \<Longrightarrow> protoFree (addOperationTo st a)"
  by (simp add: protoFree_def addOperationTo_def indexWrite_def)

lemma protoFree_undo: "protoFree st \<Longrightarrow> protoFree (snd (undoIn st))"
  by (simp add: protoFree_def undoIn_def indexDelete_def Let_def)

lemma protoFree_redo: "protoFree st \<Longrightarrow> protoFree (snd (redoIn st))"
  by (simp add: protoFree_def redoIn_def indexWrite_def Let_def)

lemma protoFree_clear: "protoFree (clearStateIn st)"
  by (simp add: protoFree_def clearStateIn_def)

lemma protoFree_remove: "protoFree st \<Longrightarrow> protoFree (removeOperationIn st x)"
  by (simp add: protoFree_def removeOperationIn_def rebuildIndex_def rebuildFrom_proto split: indexed.splits)

lemma protoFree_perform:
  assumes "\<And>r. protoFree (ledger m r)"
  shows "protoFree (ledger (perform m c) r)"
  using assms
  by (cases c)
     (simp_all add: perform_eq ledger_upd protoFree_add protoFree_undo
        protoFree_redo protoFree_clear protoFree_remove del: perform.simps)

lemma protoFree_run: "protoFree (ledger (run calls) r)"
proof (induction calls arbitrary: r rule: rev_induct)
  case Nil
  show ?case by (simp add: run_Nil ledger_alt protoFree_new)
next
  case (snoc c calls)
  show ?case
    unfolding run_snoc by (rule protoFree_perform) (rule snoc)
qed

lemma round_trip_state:
  assumes "protoFree st"
  shows "snd (redoIn (snd (undoIn (addOperationTo st a)))) = addOperationTo st a"
proof -
  have idx: "indexWrite (indexDelete (indexWrite (operationIndex st) k n) k) k n
               = indexWrite (operationIndex st) k n" for k n
    using assms by (auto simp: indexWrite_def indexDelete_def protoFree_def)
  show ?thesis
    by (simp add: undoIn_def redoIn_def addOperationTo_def Let_def idx)
qed

section \<open>Undo and redo\<close>

text \<open>
  Claim C2 (append clears redo). From any manager and for any operations a and b, after
  \<^verbatim>\<open>addOperation(a); undo(); addOperation(b)\<close> on a room the undo stack of the room is
  empty, and a following \<^verbatim>\<open>redo()\<close> returns null and leaves the manager as it was.
\<close>

theorem append_clears_redo:
  "let m1 = snd (addOperation m r a);
       m2 = snd (undo m1 r);
       m3 = snd (addOperation m2 r b)
   in undoStack (ledger m3 r) = [] \<and> redo m3 r = (None, m3)"
  by (simp add: Let_def addOperation_eq undo_eq redo_eq ledger_upd addOperationTo_def redoIn_def)


text \<open>
  Claim C3 (undo/redo round trip). In every state the manager can reach by calls, after
  \<^verbatim>\<open>addOperation(a); undo(); redo()\<close> on a room the manager is the one right after
  \<^verbatim>\<open>addOperation(a)\<close>: undo and redo both return a, the operations of the room are the
  earlier ones followed by a, and the index is the same. From a fresh manager the
  operations are exactly [a].
\<close>

theorem undo_redo_round_trip:
  "let m = run calls;
       m1 = snd (addOperation m r a);
       m2 = snd (undo m1 r);
       m3 = snd (redo m2 r)
   in fst (undo m1 r) = Some a \<and> fst (redo m2 r) = Some a
      \<and> m3 = m1
      \<and> operations (ledger m3 r) = operations (ledger m r) @ [a]
      \<and> operationIndex (ledger m3 r) = operationIndex (ledger m1 r)
      \<and> operations (ledger (snd (redo (snd (undo (snd (addOperation Map.empty r a)) r)) r)) r) = [a]"
proof -
  have pf: "protoFree (ledger (run calls) r)" by (rule protoFree_run)
  have pf0: "protoFree (ledger Map.empty r)" by (simp add: ledger_alt protoFree_new)
  have a: "fst (undoIn (addOperationTo st a)) = Some a" for st
    by (simp add: undoIn_def addOperationTo_def Let_def)
  have b: "fst (redoIn (snd (undoIn (addOperationTo st a)))) = Some a" for st
    by (simp add: undoIn_def redoIn_def addOperationTo_def Let_def)
  have c: "operations (addOperationTo st a) = operations st @ [a]" for st
    by (simp add: addOperationTo_def)
  have d: "operations (ledger Map.empty r) = []"
    by (simp add: ledger_alt newRoomState_def)
  show ?thesis
    by (simp add: Let_def addOperation_eq undo_eq redo_eq ledger_upd a b c d
          round_trip_state [OF pf] round_trip_state [OF pf0])
qed

section \<open>Facts about the handlers\<close>

lemma map_of_setProp: "map_of (setProp kvs name v) = (map_of kvs)(name \<mapsto> v)"
  by (induction kvs) (auto simp: fun_eq_iff)

lemma readProp_stamp:
  "readProp (JObj (stamp clk s data)) name =
     (if name = ''id'' then JStr (socketId s @ ''-'' @ decimal (now2 clk) @ ''-'' @ randomText clk)
      else if name = ''timestamp'' then JNum (Fin (of_nat (now1 clk)))
      else if name = ''userId'' then JStr (socketId s)
      else readProp (JObj (ownProperties data)) name)"
  by (simp add: stamp_def map_of_setProp)

lemma accepted_is_object:
  assumes "validateDrawingData data = Inr True"
  shows "\<exists>kvs. data = JObj kvs"
proof -
  have "isArray (readProp data ''points'')"
    using assms by (simp add: validateDrawingData_def split: if_splits)
  then show ?thesis by (cases data) simp_all
qed

lemma onDraw_accepted:
  assumes "validateDrawingData data = Inr True"
  shows "onDraw clk s data m =
           Inr (snd (addOperation m (roomOf s) (stamp clk s data)),
                [\<lparr>target = SocketTo (socketId s) (roomOf s), event = ''draw'',
                  args = [JObj (stamp clk s data)]\<rparr>])"
  using assms by (simp add: onDraw_def Let_def split: prod.splits)

lemma onDraw_rejected:
  assumes "validateDrawingData data = Inr False"
  shows "onDraw clk s data m = Inr (m, [])"
  using assms by (simp add: onDraw_def)

lemma onUndo_eq:
  "onUndo s m =
     (snd (undo m (roomOf s)),
      case fst (undo m (roomOf s)) of
        None \<Rightarrow> []
      | Some operation \<Rightarrow>
          [\<lparr>target = IoTo (roomOf s), event = ''undo'',
            args = [JObj [(''operationId'', readProp (JObj operation) ''id'')]]\<rparr>])"
  by (simp add: onUndo_def Let_def split: prod.splits option.splits)

lemma onRedo_eq:
  "onRedo s m =
     (snd (redo m (roomOf s)),
      case fst (redo m (roomOf s)) of
        None \<Rightarrow> []
      | Some operation \<Rightarrow>
          [\<lparr>target = IoTo (roomOf s), event = ''redo'',
            args = [JObj [(''operation'', JObj operation)]]\<rparr>])"
  by (simp add: onRedo_def Let_def split: prod.splits option.splits)

lemma undoIn_empty: "operations st = [] \<Longrightarrow> undoIn st = (None, st)"
  by (simp add: undoIn_def)

lemma redoIn_empty: "undoStack st = [] \<Longrightarrow> redoIn st = (None, st)"
  by (simp add: redoIn_def)



lemma ledger_same: "ledger (m(r \<mapsto> ledger m r)) r' = ledger m r'"
  by (simp add: ledger_upd)




lemma roomOf_S: "roomOf \<lparr>socketId = ''S'', socketRooms = [''S'', ''room1'']\<rparr> = ''room1''"
  by (simp add: roomOf_def)

lemma readProp_extra:
  assumes "name \<noteq> k"
  shows "readProp (JObj (kvs @ [(name, v)])) k = readProp (JObj kvs) k"
    and "readProp (JObj ((name, v) # kvs)) k = readProp (JObj kvs) k"
  using assms by (simp_all add: map_add_def split: option.splits)

section \<open>What the handlers do and send\<close>

text \<open>
  Claim C7 (undo and redo on an empty stack). When the room of the socket has no
  operations, \<^verbatim>\<open>undo\<close> returns null, the ledger of every room is as before, and the
  undo handler emits nothing. When the undo stack of the room is empty, the same holds
  of \<^verbatim>\<open>redo\<close> and the redo handler. (The manager may have created the empty state
  object of a room it had not seen; the ledger a caller reads is the same.)
\<close>

theorem empty_undo_redo_noop:
  "(operations (ledger m (roomOf s)) = [] \<longrightarrow>
      fst (undo m (roomOf s)) = None
      \<and> (\<forall>r. ledger (snd (undo m (roomOf s))) r = ledger m r)
      \<and> snd (onUndo s m) = []
      \<and> (\<forall>r. ledger (fst (onUndo s m)) r = ledger m r))
   \<and> (undoStack (ledger m (roomOf s)) = [] \<longrightarrow>
      fst (redo m (roomOf s)) = None
      \<and> (\<forall>r. ledger (snd (redo m (roomOf s))) r = ledger m r)
      \<and> snd (onRedo s m) = []
      \<and> (\<forall>r. ledger (fst (onRedo s m)) r = ledger m r))"
  by (simp add: onUndo_eq onRedo_eq undo_eq redo_eq undoIn_empty redoIn_empty ledger_upd)

theorem empty_undo_redo_noop_witness:
  "operations (ledger Map.empty ''room1'') = []
   \<and> undoStack (ledger Map.empty ''room1'') = []
   \<and> fst (undo Map.empty ''room1'') = None
   \<and> snd (onUndo \<lparr>socketId = ''S'', socketRooms = [''S'', ''room1'']\<rparr> Map.empty) = []
   \<and> fst (redo Map.empty ''room1'') = None
   \<and> snd (onRedo \<lparr>socketId = ''S'', socketRooms = [''S'', ''room1'']\<rparr> Map.empty) = []"
  using empty_undo_redo_noop [of Map.empty "\<lparr>socketId = ''S'', socketRooms = [''S'', ''room1'']\<rparr>"]
  by (simp add: roomOf_S ledger_alt newRoomState_def)

text \<open>
  A payload on which validation returns false is dropped: the handler returns with the
  manager unchanged and nothing emitted. A payload on which validation throws is not:
  the exception leaves the handler.
\<close>

lemma draw_returning_false_is_dropped:
  "validateDrawingData data = Inr False \<Longrightarrow> onDraw clk s data m = Inr (m, [])"
  by (rule onDraw_rejected)

lemma draw_returning_false_is_dropped_example:
  "validateDrawingData
     (JObj [(''points'', JArr [JObj [(''x'', JNum (Fin 1)), (''y'', JNum (Fin 2))]]),
            (''tool'', JStr ''brush''), (''color'', JStr ''#112233''),
            (''strokeWidth'', JNum (Fin 51))]) = Inr False
   \<and> onDraw \<lparr>now1 = 1000, now2 = 1001, randomText = ''0.5''\<rparr>
        \<lparr>socketId = ''S'', socketRooms = [''S'', ''room1'']\<rparr>
        (JObj [(''points'', JArr [JObj [(''x'', JNum (Fin 1)), (''y'', JNum (Fin 2))]]),
               (''tool'', JStr ''brush''), (''color'', JStr ''#112233''),
               (''strokeWidth'', JNum (Fin 51))])
        Map.empty = Inr (Map.empty, [])"
proof -
  have rejected: "validateDrawingData
     (JObj [(''points'', JArr [JObj [(''x'', JNum (Fin 1)), (''y'', JNum (Fin 2))]]),
            (''tool'', JStr ''brush''), (''color'', JStr ''#112233''),
            (''strokeWidth'', JNum (Fin 51))]) = Inr False"
    by (simp add: validateDrawingData_def validTools_def textOf_def strokeWidthOf_def)
  show ?thesis
    using rejected draw_returning_false_is_dropped [OF rejected] by simp
qed

lemma onDraw_throws:
  assumes "validateDrawingData data = Inl e"
  shows "onDraw clk s data m = Inl e"
  using assms by (simp add: onDraw_def)

text \<open>
  Claim C6 (a malformed draw is dropped). The claim fails for a malformed payload on
  which validation throws. \<^verbatim>\<open>{points: [null], tool: 'eraser', strokeWidth: 5}\<close> is
  rejected by the specification's validation (its point has no finite coordinates),
  but \<^verbatim>\<open>validateDrawingData\<close> does not return false on it: the TypeError thrown at
  \<^verbatim>\<open>point.x\<close> passes through the draw handler, which has no handler for it, instead of
  the intent being dropped in silence. A payload on which validation returns false is
  dropped as the claim says (\<open>draw_returning_false_is_dropped\<close>).
\<close>

theorem malformed_draw_escapes_handler:
  "\<not> specAccepts
       (JObj [(''points'', JArr [JNull]), (''tool'', JStr ''eraser''),
              (''strokeWidth'', JNum (Fin 5))])
   \<and> validateDrawingData
       (JObj [(''points'', JArr [JNull]), (''tool'', JStr ''eraser''),
              (''strokeWidth'', JNum (Fin 5))]) \<noteq> Inr False
   \<and> onDraw clk s
       (JObj [(''points'', JArr [JNull]), (''tool'', JStr ''eraser''),
              (''strokeWidth'', JNum (Fin 5))]) m = Inl TypeError"
  by (simp add: validateDrawingData_def validTools_def textOf_def strokeWidthOf_def
        onDraw_def specAccepts_def specPoint_def)




text \<open>
  Claim C9 (authority stamping). For an accepted payload, the operation that is stored
  and emitted has \<^verbatim>\<open>userId\<close> equal to the sender's socket id, \<^verbatim>\<open>timestamp\<close> equal to
  the server's clock, and \<^verbatim>\<open>id\<close> built from the socket id, the clock and the random
  number; whatever the payload carried under these names is overwritten, so two accepted
  payloads handled at the same moment for the same socket get the same three values.
\<close>

theorem authority_stamping:
  assumes "validateDrawingData data = Inr True" and "validateDrawingData data' = Inr True"
  shows "onDraw clk s data m =
           Inr (snd (addOperation m (roomOf s) (stamp clk s data)),
                [\<lparr>target = SocketTo (socketId s) (roomOf s), event = ''draw'',
                  args = [JObj (stamp clk s data)]\<rparr>])
         \<and> last (operations (ledger (snd (addOperation m (roomOf s) (stamp clk s data))) (roomOf s)))
             = stamp clk s data
         \<and> readProp (JObj (stamp clk s data)) ''userId'' = JStr (socketId s)
         \<and> readProp (JObj (stamp clk s data)) ''timestamp'' = JNum (Fin (of_nat (now1 clk)))
         \<and> readProp (JObj (stamp clk s data)) ''id''
             = JStr (socketId s @ ''-'' @ decimal (now2 clk) @ ''-'' @ randomText clk)
         \<and> readProp (JObj (stamp clk s data')) ''userId'' = readProp (JObj (stamp clk s data)) ''userId''
         \<and> readProp (JObj (stamp clk s data')) ''timestamp''
             = readProp (JObj (stamp clk s data)) ''timestamp''
         \<and> readProp (JObj (stamp clk s data')) ''id'' = readProp (JObj (stamp clk s data)) ''id''"
  using assms(1)
  by (simp add: onDraw_accepted addOperation_eq ledger_upd addOperationTo_def readProp_stamp
        del: readProp.simps)

theorem authority_stamping_witness:
  "validateDrawingData
     (JObj [(''id'', JStr ''forged''), (''userId'', JStr ''T''), (''timestamp'', JNum (Fin 7)),
            (''points'', JArr [JObj [(''x'', JNum (Fin 1)), (''y'', JNum (Fin 2))]]),
            (''tool'', JStr ''eraser''), (''strokeWidth'', JNum (Fin 5))]) = Inr True
   \<and> validateDrawingData
     (JObj [(''points'', JArr [JObj [(''x'', JNum (Fin 1)), (''y'', JNum (Fin 2))]]),
            (''tool'', JStr ''eraser''), (''strokeWidth'', JNum (Fin 5))]) = Inr True
   \<and> readProp (JObj (stamp \<lparr>now1 = 1000, now2 = 1001, randomText = ''0.5''\<rparr>
          \<lparr>socketId = ''S'', socketRooms = [''S'', ''room1'']\<rparr>
          (JObj [(''id'', JStr ''forged''), (''userId'', JStr ''T''), (''timestamp'', JNum (Fin 7)),
            (''points'', JArr [JObj [(''x'', JNum (Fin 1)), (''y'', JNum (Fin 2))]]),
            (''tool'', JStr ''eraser''), (''strokeWidth'', JNum (Fin 5))]))) ''userId'' = JStr ''S''
   \<and> readProp (JObj (stamp \<lparr>now1 = 1000, now2 = 1001, randomText = ''0.5''\<rparr>
          \<lparr>socketId = ''S'', socketRooms = [''S'', ''room1'']\<rparr>
          (JObj [(''id'', JStr ''forged''), (''userId'', JStr ''T''), (''timestamp'', JNum (Fin 7)),
            (''points'', JArr [JObj [(''x'', JNum (Fin 1)), (''y'', JNum (Fin 2))]]),
            (''tool'', JStr ''eraser''), (''strokeWidth'', JNum (Fin 5))]))) ''timestamp''
       = JNum (Fin 1000)
   \<and> readProp (JObj (stamp \<lparr>now1 = 1000, now2 = 1001, randomText = ''0.5''\<rparr>
          \<lparr>socketId = ''S'', socketRooms = [''S'', ''room1'']\<rparr>
          (JObj [(''id'', JStr ''forged''), (''userId'', JStr ''T''), (''timestamp'', JNum (Fin 7)),
            (''points'', JArr [JObj [(''x'', JNum (Fin 1)), (''y'', JNum (Fin 2))]]),
            (''tool'', JStr ''eraser''), (''strokeWidth'', JNum (Fin 5))]))) ''id''
       = JStr ''S-1001-0.5''"
proof -
  let ?forged = "JObj [(''id'', JStr ''forged''), (''userId'', JStr ''T''), (''timestamp'', JNum (Fin 7)),
            (''points'', JArr [JObj [(''x'', JNum (Fin 1)), (''y'', JNum (Fin 2))]]),
            (''tool'', JStr ''eraser''), (''strokeWidth'', JNum (Fin 5))]"
  let ?plain = "JObj [(''points'', JArr [JObj [(''x'', JNum (Fin 1)), (''y'', JNum (Fin 2))]]),
            (''tool'', JStr ''eraser''), (''strokeWidth'', JNum (Fin 5))]"
  have forged: "validateDrawingData ?forged = Inr True"
    by (simp add: validateDrawingData_def validTools_def textOf_def strokeWidthOf_def)
  have plain: "validateDrawingData ?plain = Inr True"
    by (simp add: validateDrawingData_def validTools_def textOf_def strokeWidthOf_def)
  have digits: "decimal 1001 = ''1001''"
    by (simp add: decimal.simps)
  show ?thesis
    using authority_stamping [OF forged plain,
        of "\<lparr>now1 = 1000, now2 = 1001, randomText = ''0.5''\<rparr>"
           "\<lparr>socketId = ''S'', socketRooms = [''S'', ''room1'']\<rparr>" Map.empty]
    by (simp add: forged plain digits)
qed

text \<open>
  Claim C10 (extra fields pass through). A property whose name validation does not read
  never changes the verdict of validation, and for an accepted payload every property
  other than \<^verbatim>\<open>id\<close>, \<^verbatim>\<open>userId\<close> and \<^verbatim>\<open>timestamp\<close> has in the stored and emitted
  operation the value it had in the payload.
\<close>

theorem extra_fields_pass_through:
  "(name \<notin> {''points'', ''tool'', ''strokeWidth'', ''color''} \<longrightarrow>
      validateDrawingData (JObj (kvs @ [(name, v)])) = validateDrawingData (JObj kvs)
      \<and> validateDrawingData (JObj ((name, v) # kvs)) = validateDrawingData (JObj kvs))
   \<and> (validateDrawingData data = Inr True \<and> name \<notin> {''id'', ''userId'', ''timestamp''} \<longrightarrow>
      readProp (JObj (stamp clk s data)) name = readProp data name
      \<and> onDraw clk s data m =
           Inr (snd (addOperation m (roomOf s) (stamp clk s data)),
                [\<lparr>target = SocketTo (socketId s) (roomOf s), event = ''draw'',
                  args = [JObj (stamp clk s data)]\<rparr>])
      \<and> last (operations (ledger (snd (addOperation m (roomOf s) (stamp clk s data))) (roomOf s)))
           = stamp clk s data)"
proof -
  have validation: "validateDrawingData (JObj (kvs @ [(name, v)])) = validateDrawingData (JObj kvs)
      \<and> validateDrawingData (JObj ((name, v) # kvs)) = validateDrawingData (JObj kvs)"
    if "name \<notin> {''points'', ''tool'', ''strokeWidth'', ''color''}"
  proof -
    from that have "name \<noteq> ''points''" "name \<noteq> ''tool''" "name \<noteq> ''strokeWidth''"
      "name \<noteq> ''color''" by auto
    then have same:
      "readProp (JObj (kvs @ [(name, v)])) ''points'' = readProp (JObj kvs) ''points''"
      "readProp (JObj (kvs @ [(name, v)])) ''tool'' = readProp (JObj kvs) ''tool''"
      "readProp (JObj (kvs @ [(name, v)])) ''strokeWidth'' = readProp (JObj kvs) ''strokeWidth''"
      "readProp (JObj (kvs @ [(name, v)])) ''color'' = readProp (JObj kvs) ''color''"
      "readProp (JObj ((name, v) # kvs)) ''points'' = readProp (JObj kvs) ''points''"
      "readProp (JObj ((name, v) # kvs)) ''tool'' = readProp (JObj kvs) ''tool''"
      "readProp (JObj ((name, v) # kvs)) ''strokeWidth'' = readProp (JObj kvs) ''strokeWidth''"
      "readProp (JObj ((name, v) # kvs)) ''color'' = readProp (JObj kvs) ''color''"
      by (simp_all add: map_add_def split: option.splits)
    show ?thesis
      unfolding validateDrawingData_def by (simp only: same truthy.simps typeof.simps)
  qed
  have copied: "readProp (JObj (stamp clk s data)) name = readProp data name"
    if "validateDrawingData data = Inr True" "name \<notin> {''id'', ''userId'', ''timestamp''}"
  proof -
    from that(1) obtain kvs where "data = JObj kvs" using accepted_is_object by blast
    with that(2) show ?thesis by (simp add: readProp_stamp del: readProp.simps)
  qed
  show ?thesis
    using validation copied
    by (simp add: onDraw_accepted addOperation_eq ledger_upd addOperationTo_def)
qed


theorem extra_fields_pass_through_witness:
  "validateDrawingData
     (JObj ([(''points'', JArr [JObj [(''x'', JNum (Fin 1)), (''y'', JNum (Fin 2))]]),
             (''tool'', JStr ''eraser''), (''strokeWidth'', JNum (Fin 5))]
            @ [(''note'', JStr ''anything'')])) = Inr True
   \<and> readProp
        (JObj (stamp \<lparr>now1 = 1000, now2 = 1001, randomText = ''0.5''\<rparr>
                 \<lparr>socketId = ''S'', socketRooms = [''S'', ''room1'']\<rparr>
                 (JObj ([(''points'', JArr [JObj [(''x'', JNum (Fin 1)), (''y'', JNum (Fin 2))]]),
                         (''tool'', JStr ''eraser''), (''strokeWidth'', JNum (Fin 5))]
                        @ [(''note'', JStr ''anything'')]))))
        ''note'' = JStr ''anything''"
proof -
  let ?kvs = "[(''points'', JArr [JObj [(''x'', JNum (Fin 1)), (''y'', JNum (Fin 2))]]),
               (''tool'', JStr ''eraser''), (''strokeWidth'', JNum (Fin 5))]"
  have plain: "validateDrawingData (JObj ?kvs) = Inr True"
    by (simp add: validateDrawingData_def validTools_def textOf_def strokeWidthOf_def)
  show ?thesis
    using extra_fields_pass_through
      [of "''note''" ?kvs "JStr ''anything''" "JObj (?kvs @ [(''note'', JStr ''anything'')])"
          "\<lparr>now1 = 1000, now2 = 1001, randomText = ''0.5''\<rparr>"
          "\<lparr>socketId = ''S'', socketRooms = [''S'', ''room1'']\<rparr>" Map.empty]
    by (simp add: plain)
qed

section \<open>Validation\<close>

lemma typeof_string: "typeof v = ''string'' \<longleftrightarrow> (\<exists>s. v = JStr s)"
  by (cases v) simp_all

lemma typeof_number: "typeof v = ''number'' \<longleftrightarrow> (\<exists>n. v = JNum n)"
  by (cases v) simp_all

lemma isFiniteNumber_iff: "isFiniteNumber v \<longleftrightarrow> (\<exists>a. v = JNum (Fin a))"
proof (cases v)
  case (JNum n)
  then show ?thesis by (cases n) simp_all
qed simp_all

lemma getProp_readProp: "getProp p name = Inr v \<Longrightarrow> v = readProp p name"
  by (cases p) auto

lemma getProp_null: "getProp p name = Inl e \<Longrightarrow> readProp p name' = JUndefined"
  by (cases p) auto

lemma validatePoints_iff: "validatePoints ps = Inr True \<longleftrightarrow> list_all specPoint ps"
proof (induction ps)
  case Nil
  show ?case by simp
next
  case (Cons p ps)
  show ?case
  proof (cases "getProp p ''x''")
    case (Inl e)
    then have "\<not> specPoint p"
      by (simp add: specPoint_def getProp_null [OF Inl])
    with Inl show ?thesis by simp
  next
    case (Inr x)
    then have x: "x = readProp p ''x''" by (rule getProp_readProp)
    from Inr obtain y where y: "getProp p ''y'' = Inr y" by (cases p) auto
    then have y': "y = readProp p ''y''" by (rule getProp_readProp)
    show ?thesis
      using Inr y Cons.IH x y'
      by (auto simp: specPoint_def typeof_number isFiniteNumber_iff)
  qed
qed

lemma isHexDigit_alt:
  "isHexDigit = (\<lambda>ch. ch \<in> set ''0123456789'' \<or> ch \<in> set ''abcdef'' \<or> ch \<in> set ''ABCDEF'')"
proof (rule ext)
  fix ch :: char
  have "''0123456789ABCDEFabcdef'' = ''0123456789'' @ ''ABCDEF'' @ ''abcdef''"
    by (simp only: append.simps)
  then have "set ''0123456789ABCDEFabcdef''
               = set ''0123456789'' \<union> (set ''ABCDEF'' \<union> set ''abcdef'')"
    by (simp only: set_append)
  then show "isHexDigit ch
               = (ch \<in> set ''0123456789'' \<or> ch \<in> set ''abcdef'' \<or> ch \<in> set ''ABCDEF'')"
    unfolding isHexDigit_def by (simp only: Un_iff) blast
qed

lemma colorPattern_spec: "colorPattern s \<longleftrightarrow> specColor (JStr s)"
proof (cases s)
  case Nil
  then show ?thesis by (simp add: specColor_def)
next
  case (Cons c cs)
  have "colorPattern (c # cs) = (c = CHR ''#'' \<and> length cs = 6 \<and> list_all isHexDigit cs)"
    by (simp only: colorPattern.simps)
  moreover have len: "(Suc (length cs) = 7) = (length cs = 6)"
    by simp
  have "specColor (JStr (c # cs))
      = (length cs = 6 \<and> c = CHR ''#''
         \<and> list_all (\<lambda>ch. ch \<in> set ''0123456789'' \<or> ch \<in> set ''abcdef''
                          \<or> ch \<in> set ''ABCDEF'') cs)"
    unfolding specColor_def by (simp only: jsval.case list.sel length_Cons len)
  ultimately show ?thesis
    unfolding Cons isHexDigit_alt by blast
qed

lemma jsLess_range:
  "n \<noteq> NaN \<Longrightarrow> \<not> jsLess n (Fin 1) \<and> \<not> jsLess (Fin 50) n \<longleftrightarrow> specStrokeWidth (JNum n)"
  by (cases n) (auto simp: specStrokeWidth_def)

lemma validate_accepts_iff:
  assumes "readProp data ''strokeWidth'' \<noteq> JNum NaN"
  shows "validateDrawingData data = Inr True \<longleftrightarrow> specAccepts data"
proof (cases "\<exists>kvs. data = JObj kvs")
  case False
  then have "readProp data ''points'' = JUndefined" by (cases data) simp_all
  then show ?thesis by (simp add: validateDrawingData_def specAccepts_def)
next
  case True
  then have obj: "truthy data" "typeof data = ''object''" by auto
  show ?thesis
  proof (cases "\<exists>t. readProp data ''tool'' = JStr t")
    case False
    then show ?thesis
      by (auto simp: validateDrawingData_def specAccepts_def typeof_string)
  next
    case True
    then obtain t where t: "readProp data ''tool'' = JStr t" by blast
    show ?thesis
    proof (cases "\<exists>n. readProp data ''strokeWidth'' = JNum n")
      case False
      then have "\<not> specStrokeWidth (readProp data ''strokeWidth'')"
        by (auto simp: specStrokeWidth_def split: jsval.splits)
      with False show ?thesis
        by (auto simp: validateDrawingData_def specAccepts_def typeof_number)
    next
      case True
      then obtain n where n: "readProp data ''strokeWidth'' = JNum n" by blast
      with assms have "n \<noteq> NaN" by simp
      note range = jsLess_range [OF this]
      have color: "typeof (readProp data ''color'') = ''string''
                   \<and> colorPattern (textOf (readProp data ''color''))
                   \<longleftrightarrow> specColor (readProp data ''color'')"
        by (cases "readProp data ''color''")
           (simp_all add: textOf_def colorPattern_spec, simp_all add: specColor_def)
      show ?thesis
        using range color
        by (auto simp: validateDrawingData_def specAccepts_def obj t n textOf_def
              strokeWidthOf_def validTools_def validatePoints_iff)
    qed
  qed
qed


lemma spec_accepted_is_accepted:
  assumes "specAccepts data"
  shows "validateDrawingData data = Inr True"
proof -
  from assms have "specStrokeWidth (readProp data ''strokeWidth'')"
    by (simp add: specAccepts_def)
  then have "readProp data ''strokeWidth'' \<noteq> JNum NaN"
    by (auto simp: specStrokeWidth_def)
  from validate_accepts_iff [OF this] assms show ?thesis by simp
qed

lemma validatePoints_throws:
  assumes "validatePoints ps = Inl e"
  shows "JNull \<in> set ps \<or> JUndefined \<in> set ps"
  using assms
proof (induction ps)
  case Nil
  then show ?case by simp
next
  case (Cons p ps)
  show ?case
  proof (cases p)
    case JUndefined
    then show ?thesis by simp
  next
    case JNull
    then show ?thesis by simp
  qed (use Cons in \<open>auto split: if_splits\<close>)
qed

lemma validate_throws:
  assumes "validateDrawingData data = Inl e"
  shows "JNull \<in> set (elements (readProp data ''points''))
         \<or> JUndefined \<in> set (elements (readProp data ''points''))"
proof -
  from assms have "validatePoints (elements (readProp data ''points'')) = Inl e"
    by (simp add: validateDrawingData_def split: if_splits)
  then show ?thesis by (rule validatePoints_throws)
qed

lemma validation_boundary:
  "validateDrawingData (JObj [(''points'', JArr [JObj [(''x'', JNum (Fin 1)), (''y'', JNum (Fin 2))]]),
      (''tool'', JStr ''eraser''), (''strokeWidth'', JNum (Fin 0))]) = Inr False"
  "validateDrawingData (JObj [(''points'', JArr [JObj [(''x'', JNum (Fin 1)), (''y'', JNum (Fin 2))]]),
      (''tool'', JStr ''eraser''), (''strokeWidth'', JNum (Fin 51))]) = Inr False"
  "validateDrawingData (JObj [(''points'', JArr [JObj [(''x'', JNum (Fin 1)), (''y'', JNum (Fin 2))]]),
      (''tool'', JStr ''eraser''), (''strokeWidth'', JNum (Fin 1))]) = Inr True"
  "validateDrawingData (JObj [(''points'', JArr [JObj [(''x'', JNum (Fin 1)), (''y'', JNum (Fin 2))]]),
      (''tool'', JStr ''eraser''), (''strokeWidth'', JNum (Fin 50))]) = Inr True"
  "validateDrawingData (JObj [(''points'', JArr [JObj [(''x'', JNum (Fin 1)), (''y'', JNum (Fin 2))]]),
      (''tool'', JStr ''brush''), (''strokeWidth'', JNum (Fin 5)),
      (''color'', JStr ''#ZZZZZZ'')]) = Inr False"
  "validateDrawingData (JObj [(''points'', JArr [JObj [(''x'', JNum (Fin 1)), (''y'', JNum (Fin 2))]]),
      (''tool'', JStr ''brush''), (''strokeWidth'', JNum (Fin 5)),
      (''color'', JStr ''#AbC123'')]) = Inr True"
  "validateDrawingData (JObj [(''points'', JArr [JObj [(''x'', JNum (Fin 1)), (''y'', JNum (Fin 2))]]),
      (''tool'', JStr ''brush''), (''strokeWidth'', JNum (Fin 5))]) = Inr False"
  "validateDrawingData (JObj [(''points'', JArr [JObj [(''x'', JNum PosInf), (''y'', JNum (Fin 2))]]),
      (''tool'', JStr ''eraser''), (''strokeWidth'', JNum (Fin 5))]) = Inr False"
  by (simp_all add: validateDrawingData_def validTools_def textOf_def strokeWidthOf_def
        isHexDigit_def)

text \<open>
  Claim C4 (validation predicate). The claim fails where a point is null: on the payload
  \<^verbatim>\<open>{points: [null], tool: 'eraser', strokeWidth: 5}\<close> validation does not return
  false, it throws a TypeError at \<^verbatim>\<open>point.x\<close>, and the draw handler ends in that
  exception. A second slip: a strokeWidth of NaN passes both comparisons, so the payload
  is accepted although NaN is not in [1, 50]. Apart from these two cases the function
  accepts exactly what the specification accepts (\<open>validate_accepts_iff\<close>,
  \<open>validate_throws\<close>, \<open>validation_boundary\<close>).
\<close>

theorem validation_throws_on_null_point:
  "validateDrawingData
     (JObj [(''points'', JArr [JNull]), (''tool'', JStr ''eraser''),
            (''strokeWidth'', JNum (Fin 5))]) = Inl TypeError
   \<and> onDraw \<lparr>now1 = 1000, now2 = 1001, randomText = ''0.5''\<rparr>
        \<lparr>socketId = ''S'', socketRooms = [''S'', ''room1'']\<rparr>
        (JObj [(''points'', JArr [JNull]), (''tool'', JStr ''eraser''),
               (''strokeWidth'', JNum (Fin 5))])
        Map.empty = Inl TypeError
   \<and> validateDrawingData
     (JObj [(''points'', JArr [JObj [(''x'', JNum (Fin 1)), (''y'', JNum (Fin 2))]]),
            (''tool'', JStr ''eraser''), (''strokeWidth'', JNum NaN)]) = Inr True
   \<and> \<not> specAccepts
     (JObj [(''points'', JArr [JObj [(''x'', JNum (Fin 1)), (''y'', JNum (Fin 2))]]),
            (''tool'', JStr ''eraser''), (''strokeWidth'', JNum NaN)])"
  by (simp add: validateDrawingData_def validTools_def textOf_def strokeWidthOf_def
        onDraw_def specAccepts_def specStrokeWidth_def)

section \<open>The index and the operations\<close>

lemma consistentI:
  assumes "\<And>k i. idx k = Some i \<Longrightarrow> i < length ops \<and> idKey (ops ! i) = k"
    and "\<And>i. i < length ops \<Longrightarrow> idx (idKey (ops ! i)) = Some i"
  shows "consistent ops idx"
  using assms unfolding consistent_def by blast

lemma consistentD1:
  "consistent ops idx \<Longrightarrow> idx k = Some i \<Longrightarrow> i < length ops \<and> idKey (ops ! i) = k"
  unfolding consistent_def by blast

lemma consistentD2:
  "consistent ops idx \<Longrightarrow> i < length ops \<Longrightarrow> idx (idKey (ops ! i)) = Some i"
  unfolding consistent_def by blast

lemma idKey_nth_mem: "i < length ops \<Longrightarrow> idKey (ops ! i) \<in> set (map idKey ops)"
  by simp

lemma consistent_append:
  assumes c: "consistent ops idx"
    and fresh: "idKey a \<notin> set (map idKey ops)" and np: "idKey a \<noteq> ''__proto__''"
  shows "consistent (ops @ [a]) (indexWrite idx (idKey a) (length (ops @ [a]) - 1))"
proof (rule consistentI)
  fix k i
  assume "indexWrite idx (idKey a) (length (ops @ [a]) - 1) k = Some i"
  then have upd: "(idx(idKey a \<mapsto> length ops)) k = Some i"
    using np by (simp add: indexWrite_def)
  show "i < length (ops @ [a]) \<and> idKey ((ops @ [a]) ! i) = k"
  proof (cases "k = idKey a")
    case True
    with upd have "i = length ops" by simp
    with True show ?thesis by simp
  next
    case False
    with upd have "idx k = Some i" by simp
    from consistentD1 [OF c this] show ?thesis by (simp add: nth_append)
  qed
next
  fix i
  assume "i < length (ops @ [a])"
  then consider "i = length ops" | "i < length ops" by fastforce
  then show "indexWrite idx (idKey a) (length (ops @ [a]) - 1) (idKey ((ops @ [a]) ! i)) = Some i"
  proof cases
    case 1
    then show ?thesis using np by (simp add: indexWrite_def)
  next
    case 2
    then have "idKey (ops ! i) \<noteq> idKey a"
      using fresh idKey_nth_mem by metis
    with 2 consistentD2 [OF c 2] show ?thesis
      using np by (simp add: indexWrite_def nth_append)
  qed
qed

lemma consistent_butlast:
  assumes c: "consistent (xs @ [x]) idx"
    and d: "distinct (map idKey (xs @ [x]))"
  shows "consistent xs (indexDelete idx (idKey x))"
proof (rule consistentI)
  have fresh: "idKey x \<notin> set (map idKey xs)" using d by simp
  fix k i
  assume "indexDelete idx (idKey x) k = Some i"
  then have k: "k \<noteq> idKey x" and i: "idx k = Some i"
    by (simp_all add: indexDelete_def split: if_splits)
  from consistentD1 [OF c i] have le: "i < Suc (length xs)" and key: "idKey ((xs @ [x]) ! i) = k"
    by simp_all
  have "i \<noteq> length xs" using key k by auto
  with le have "i < length xs" by simp
  with key show "i < length xs \<and> idKey (xs ! i) = k" by (simp add: nth_append)
next
  have fresh: "idKey x \<notin> set (map idKey xs)" using d by simp
  fix i
  assume i: "i < length xs"
  then have ne: "idKey (xs ! i) \<noteq> idKey x" using fresh idKey_nth_mem by metis
  from i have "i < length (xs @ [x])" by simp
  from consistentD2 [OF c this] i have "idx (idKey (xs ! i)) = Some i" by (simp add: nth_append)
  with ne show "indexDelete idx (idKey x) (idKey (xs ! i)) = Some i"
    by (simp add: indexDelete_def)
qed

lemma consistent_empty: "consistent [] Map.empty"
  by (simp add: consistent_def)

lemma rebuildFrom_other:
  "k \<notin> set (map idKey ops) \<Longrightarrow> rebuildFrom i ops idx k = idx k"
  by (induction ops arbitrary: i idx) (auto simp: indexWrite_def)

lemma rebuildFrom_nth:
  assumes "distinct (map idKey ops)" and "''__proto__'' \<notin> set (map idKey ops)"
    and "j < length ops"
  shows "rebuildFrom i ops idx (idKey (ops ! j)) = Some (i + j)"
  using assms
proof (induction ops arbitrary: i idx j)
  case Nil
  then show ?case by simp
next
  case (Cons a ops)
  show ?case
  proof (cases j)
    case 0
    from Cons.prems have "idKey a \<notin> set (map idKey ops)" "idKey a \<noteq> ''__proto__''" by auto
    then show ?thesis
      using 0 by (simp add: rebuildFrom_other indexWrite_def)
  next
    case (Suc j')
    with Cons.prems have "distinct (map idKey ops)" "''__proto__'' \<notin> set (map idKey ops)"
      "j' < length ops" by auto
    from Cons.IH [OF this] show ?thesis using Suc by simp
  qed
qed

lemma consistent_rebuild:
  assumes "distinct (map idKey ops)" and "''__proto__'' \<notin> set (map idKey ops)"
  shows "consistent ops (rebuildFrom 0 ops Map.empty)"
proof (rule consistentI)
  fix k i
  assume some: "rebuildFrom 0 ops Map.empty k = Some i"
  then have "k \<in> set (map idKey ops)"
    using rebuildFrom_other [of k ops 0 Map.empty] by auto
  then obtain j where j: "j < length ops" "idKey (ops ! j) = k"
    by (metis in_set_conv_nth length_map nth_map)
  from rebuildFrom_nth [OF assms j(1), of 0 Map.empty] some j(2) have "i = j" by simp
  with j show "i < length ops \<and> idKey (ops ! i) = k" by simp
next
  fix i
  assume "i < length ops"
  from rebuildFrom_nth [OF assms this, of 0 Map.empty]
  show "rebuildFrom 0 ops Map.empty (idKey (ops ! i)) = Some i" by simp
qed


lemma splice1_all: "length xs \<le> n \<Longrightarrow> splice1 n xs = xs"
  by (simp add: splice1_def)

lemma splice1_split:
  assumes "n < length xs"
  shows "xs = take n xs @ xs ! n # drop (Suc n) xs" and "splice1 n xs = take n xs @ drop (Suc n) xs"
  using assms by (simp_all add: splice1_def id_take_nth_drop [symmetric])

lemma splice1_distinct:
  assumes "distinct (map f (xs @ ys))"
  shows "distinct (map f (splice1 n xs @ ys))"
proof (cases "n < length xs")
  case False
  then show ?thesis using assms by (simp add: splice1_all)
next
  case True
  have "distinct (map f ((take n xs @ xs ! n # drop (Suc n) xs) @ ys))"
    using assms splice1_split(1) [OF True] by simp
  then show ?thesis
    unfolding splice1_split(2) [OF True] by auto
qed

lemma splice1_subset: "set (splice1 n xs) \<subseteq> set xs"
  unfolding splice1_def by (auto dest: in_set_takeD in_set_dropD)

lemma ledgerInv_new: "''__proto__'' \<notin> A \<Longrightarrow> ledgerInv A newRoomState"
  by (simp add: ledgerInv_def indexConsistent_def newRoomState_def consistent_empty)

lemma ledgerInv_add:
  assumes "ledgerInv A st" and "idKey a \<notin> A" and "idKey a \<noteq> ''__proto__''"
    and "hasStringId a"
  shows "ledgerInv (insert (idKey a) A) (addOperationTo st a)"
proof -
  from assms(1) have c: "consistent (operations st) (operationIndex st)"
    and d: "distinct (map idKey (operations st))"
    and sub: "set (map idKey (operations st)) \<subseteq> A" and np: "''__proto__'' \<notin> A"
    by (simp_all add: ledgerInv_def indexConsistent_def)
  from sub assms(2) have fresh: "idKey a \<notin> set (map idKey (operations st))" by blast
  have "consistent (operations st @ [a])
          (indexWrite (operationIndex st) (idKey a) (length (operations st @ [a]) - 1))"
    by (rule consistent_append [OF c fresh assms(3)])
  moreover have "distinct (map idKey (operations st @ [a]))"
    using d fresh by simp
  moreover have "set (map idKey (operations st @ [a])) \<subseteq> insert (idKey a) A"
    using sub by auto
  moreover have "list_all hasStringId (operations st @ [a])"
    using assms(1,4) by (simp add: ledgerInv_def)
  ultimately show ?thesis
    using np assms(3) by (simp add: ledgerInv_def indexConsistent_def addOperationTo_def)
qed

lemma ledgerInv_undo:
  assumes "ledgerInv A st"
  shows "ledgerInv A (snd (undoIn st))"
proof (cases "operations st = []")
  case True
  with assms show ?thesis by (simp add: undoIn_def)
next
  case False
  then obtain xs x where ops: "operations st = xs @ [x]"
    by (metis append_butlast_last_id)
  from assms have c: "consistent (xs @ [x]) (operationIndex st)"
    and d: "distinct (map idKey ((xs @ [x]) @ undoStack st))"
    and sub: "set (map idKey ((xs @ [x]) @ undoStack st)) \<subseteq> A" and np: "''__proto__'' \<notin> A"
    by (simp_all add: ledgerInv_def indexConsistent_def ops)
  from d have d1: "distinct (map idKey (xs @ [x]))" by simp
  have "consistent xs (indexDelete (operationIndex st) (idKey x))"
    by (rule consistent_butlast [OF c d1])
  moreover have "distinct (map idKey (xs @ (undoStack st @ [x])))"
    using d by auto
  moreover have "set (map idKey (xs @ (undoStack st @ [x]))) \<subseteq> A"
    using sub by auto
  moreover have "list_all hasStringId (xs @ (undoStack st @ [x]))"
    using assms by (simp add: ledgerInv_def ops)
  ultimately show ?thesis
    using np by (simp add: ledgerInv_def indexConsistent_def undoIn_def ops Let_def)
qed

lemma ledgerInv_redo:
  assumes "ledgerInv A st"
  shows "ledgerInv A (snd (redoIn st))"
proof (cases "undoStack st = []")
  case True
  with assms show ?thesis by (simp add: redoIn_def)
next
  case False
  then obtain us x where stack: "undoStack st = us @ [x]"
    by (metis append_butlast_last_id)
  from assms have c: "consistent (operations st) (operationIndex st)"
    and d: "distinct (map idKey (operations st @ (us @ [x])))"
    and sub: "set (map idKey (operations st @ (us @ [x]))) \<subseteq> A" and np: "''__proto__'' \<notin> A"
    by (simp_all add: ledgerInv_def indexConsistent_def stack)
  from d have fresh: "idKey x \<notin> set (map idKey (operations st))" by auto
  from sub np have nproto: "idKey x \<noteq> ''__proto__''" by auto
  have "consistent (operations st @ [x])
          (indexWrite (operationIndex st) (idKey x) (length (operations st @ [x]) - 1))"
    by (rule consistent_append [OF c fresh nproto])
  moreover have "distinct (map idKey ((operations st @ [x]) @ us))"
    using d by auto
  moreover have "set (map idKey ((operations st @ [x]) @ us)) \<subseteq> A"
    using sub by auto
  moreover have "list_all hasStringId ((operations st @ [x]) @ us)"
    using assms by (simp add: ledgerInv_def stack)
  ultimately show ?thesis
    using np by (simp add: ledgerInv_def indexConsistent_def redoIn_def stack Let_def)
qed

lemma ledgerInv_clear: "ledgerInv A st \<Longrightarrow> ledgerInv A (clearStateIn st)"
  by (simp add: ledgerInv_def indexConsistent_def clearStateIn_def consistent_empty)

lemma ledgerInv_splice:
  assumes "ledgerInv A st"
  shows "ledgerInv A
           (rebuildIndex (st\<lparr>operations := splice1 n (operations st), operationIndex := idx\<rparr>))"
proof -
  from assms have d: "distinct (map idKey (operations st @ undoStack st))"
    and sub: "set (map idKey (operations st @ undoStack st)) \<subseteq> A" and np: "''__proto__'' \<notin> A"
    by (simp_all add: ledgerInv_def)
  have d': "distinct (map idKey (splice1 n (operations st) @ undoStack st))"
    by (rule splice1_distinct [OF d])
  have sub': "set (map idKey (splice1 n (operations st) @ undoStack st)) \<subseteq> A"
    using sub splice1_subset [of n "operations st"] by auto
  from d' have d1: "distinct (map idKey (splice1 n (operations st)))" by simp
  from sub' np have np1: "''__proto__'' \<notin> set (map idKey (splice1 n (operations st)))" by auto
  have "consistent (splice1 n (operations st)) (rebuildFrom 0 (splice1 n (operations st)) Map.empty)"
    by (rule consistent_rebuild [OF d1 np1])
  moreover have "list_all hasStringId (splice1 n (operations st) @ undoStack st)"
    using assms splice1_subset [of n "operations st"]
    by (auto simp: ledgerInv_def list_all_iff)
  ultimately show ?thesis
    using d' sub' np
    by (simp add: ledgerInv_def indexConsistent_def rebuildIndex_def)
qed

lemma ledgerInv_remove:
  assumes "ledgerInv A st"
  shows "ledgerInv A (removeOperationIn st x)"
proof (cases "indexRead (operationIndex st) x")
  case Undefined
  with assms show ?thesis by (simp add: removeOperationIn_def)
next
  case (Position i)
  then show ?thesis
    using ledgerInv_splice [OF assms] by (simp add: removeOperationIn_def)
next
  case Inherited
  then show ?thesis
    using ledgerInv_splice [OF assms] by (simp add: removeOperationIn_def)
qed

lemma addedTo_append: "addedTo r (calls @ calls') = addedTo r calls @ addedTo r calls'"
  by (induction r calls rule: addedTo.induct) simp_all

lemma ledger_perform:
  "ledger (perform m (AddOperation r' a)) r
     = (if r = r' then addOperationTo (ledger m r) a else ledger m r)"
  "ledger (perform m (Undo r')) r = (if r = r' then snd (undoIn (ledger m r)) else ledger m r)"
  "ledger (perform m (Redo r')) r = (if r = r' then snd (redoIn (ledger m r)) else ledger m r)"
  "ledger (perform m (RemoveOperation r' x)) r
     = (if r = r' then removeOperationIn (ledger m r) x else ledger m r)"
  "ledger (perform m (ClearState r')) r
     = (if r = r' then clearStateIn (ledger m r) else ledger m r)"
  "ledger (perform m (GetState r')) r = ledger m r"
  by (simp_all add: perform_eq ledger_upd del: perform.simps)

lemma ledgerInv_perform:
  assumes "ledgerInv A (ledger m r)" and "addedTo r [c] = []"
  shows "ledgerInv A (ledger (perform m c) r)"
proof (cases c)
  case (AddOperation r' a)
  with assms(2) have "r \<noteq> r'" by (auto split: if_splits)
  with assms(1) show ?thesis unfolding AddOperation ledger_perform by auto
next
  case (Undo r')
  show ?thesis
    unfolding Undo ledger_perform using assms(1) ledgerInv_undo [OF assms(1)] by auto
next
  case (Redo r')
  show ?thesis
    unfolding Redo ledger_perform using assms(1) ledgerInv_redo [OF assms(1)] by auto
next
  case (RemoveOperation r' x)
  show ?thesis
    unfolding RemoveOperation ledger_perform
    using assms(1) ledgerInv_remove [OF assms(1)] by auto
next
  case (ClearState r')
  show ?thesis
    unfolding ClearState ledger_perform using assms(1) ledgerInv_clear [OF assms(1)] by auto
next
  case (GetState r')
  show ?thesis
    unfolding GetState ledger_perform using assms(1) by auto
qed

lemma addedOps_append: "addedOps r (calls @ calls') = addedOps r calls @ addedOps r calls'"
  by (induction r calls rule: addedOps.induct) simp_all

lemma ledgerInv_run:
  assumes "distinct (addedTo r calls)" and "''__proto__'' \<notin> set (addedTo r calls)"
    and "list_all hasStringId (addedOps r calls)"
  shows "ledgerInv (set (addedTo r calls)) (ledger (run calls) r)"
  using assms
proof (induction calls rule: rev_induct)
  case Nil
  then show ?case by (simp add: run_Nil ledger_alt ledgerInv_new)
next
  case (snoc c calls)
  from snoc.prems have "distinct (addedTo r calls)" "''__proto__'' \<notin> set (addedTo r calls)"
    "list_all hasStringId (addedOps r calls)"
    by (simp_all add: addedTo_append addedOps_append)
  then have inv: "ledgerInv (set (addedTo r calls)) (ledger (run calls) r)"
    by (rule snoc.IH)
  show ?case
  proof (cases "addedTo r [c] = []")
    case True
    then have same: "addedTo r (calls @ [c]) = addedTo r calls"
      by (simp add: addedTo_append)
    show ?thesis
      unfolding same run_snoc by (rule ledgerInv_perform [OF inv True])
  next
    case False
    then obtain a where c: "c = AddOperation r a"
      by (cases c) (auto split: if_splits)
    from snoc.prems have fresh: "idKey a \<notin> set (addedTo r calls)" "idKey a \<noteq> ''__proto__''"
      "hasStringId a"
      by (auto simp: addedTo_append addedOps_append c)
    have ids: "set (addedTo r (calls @ [c])) = insert (idKey a) (set (addedTo r calls))"
      by (simp add: addedTo_append c)
    have "ledger (run (calls @ [c])) r = addOperationTo (ledger (run calls) r) a"
      unfolding run_snoc c ledger_perform by simp
    with ledgerInv_add [OF inv fresh] ids show ?thesis by simp
  qed
qed

lemma index_consistent_reachable:
  assumes "distinct (addedTo r calls)" and "''__proto__'' \<notin> set (addedTo r calls)"
    and "list_all hasStringId (addedOps r calls)"
  shows "indexConsistent (ledger (run calls) r)"
  using ledgerInv_run [OF assms] by (simp add: ledgerInv_def)


text \<open>
  Claim C1 (index consistency). The claim fails for an operation whose id is
  \<^verbatim>\<open>__proto__\<close>: the write \<^verbatim>\<open>operationIndex['__proto__'] = 0\<close> reaches the setter
  inherited from \<^verbatim>\<open>Object.prototype\<close>, which ignores a number, so after one
  \<^verbatim>\<open>addOperation\<close> the operation is in the list and the index has no entry for it.
  For every other choice of distinct string ids the invariant holds after any sequence
  of calls (\<open>index_consistent_reachable\<close>).
\<close>

theorem proto_id_has_no_index_entry:
  "distinct (addedTo ''room1'' [AddOperation ''room1'' [(''id'', JStr ''__proto__'')]])
   \<and> operations (ledger (run [AddOperation ''room1'' [(''id'', JStr ''__proto__'')]]) ''room1'')
       = [[(''id'', JStr ''__proto__'')]]
   \<and> operationIndex (ledger (run [AddOperation ''room1'' [(''id'', JStr ''__proto__'')]]) ''room1'')
        (idKey [(''id'', JStr ''__proto__'')]) = None
   \<and> \<not> indexConsistent (ledger (run [AddOperation ''room1'' [(''id'', JStr ''__proto__'')]]) ''room1'')"
proof -
  have st: "ledger (run [AddOperation ''room1'' [(''id'', JStr ''__proto__'')]]) ''room1''
      = \<lparr>operations = [[(''id'', JStr ''__proto__'')]], undoStack = [], operationIndex = Map.empty\<rparr>"
    by (simp add: run_def addOperation_eq ledger_upd ledger_alt newRoomState_def
          addOperationTo_def indexWrite_def idKey_def)
  show ?thesis
    unfolding st by (simp add: indexConsistent_def consistent_def idKey_def)
qed

section \<open>Removal by id\<close>

lemma remove_absent_noop:
  assumes "operationIndex st x = None" and "x \<notin> set objectPrototypeNames"
  shows "removeOperationIn st x = st"
  using assms by (simp add: removeOperationIn_def indexRead_def)

lemma remove_present:
  assumes inv: "ledgerInv A st" and at: "operationIndex st x = Some i"
  shows "i < length (operations st)"
    and "idKey (operations st ! i) = x"
    and "operations (removeOperationIn st x) = take i (operations st) @ drop (Suc i) (operations st)"
    and "undoStack (removeOperationIn st x) = undoStack st"
    and "operationIndex (removeOperationIn st x) x = None"
    and "j < i \<Longrightarrow> operationIndex (removeOperationIn st x) (idKey (operations st ! j)) = Some j"
    and "i < j \<Longrightarrow> j < length (operations st) \<Longrightarrow>
           operationIndex (removeOperationIn st x) (idKey (operations st ! j)) = Some (j - 1)"
proof -
  let ?ops = "operations st"
  let ?ops' = "take i ?ops @ drop (Suc i) ?ops"
  from inv have c: "consistent ?ops (operationIndex st)"
    and d: "distinct (map idKey ?ops)"
    and np: "''__proto__'' \<notin> set (map idKey ?ops)"
    by (auto simp: ledgerInv_def indexConsistent_def)
  from consistentD1 [OF c at] show i: "i < length ?ops" and x: "idKey (?ops ! i) = x"
    by simp_all
  have read: "indexRead (operationIndex st) x = Position i"
    using at by (simp add: indexRead_def)
  have removed: "removeOperationIn st x
      = st\<lparr>operations := ?ops', operationIndex := rebuildFrom 0 ?ops' Map.empty\<rparr>"
    by (simp add: removeOperationIn_def read rebuildIndex_def splice1_def)
  show "operations (removeOperationIn st x) = ?ops'" and "undoStack (removeOperationIn st x) = undoStack st"
    by (simp_all add: removed)
  have split: "?ops = take i ?ops @ ?ops ! i # drop (Suc i) ?ops"
    by (rule id_take_nth_drop [OF i])
  have "distinct (map idKey (take i ?ops @ ?ops ! i # drop (Suc i) ?ops))"
    and "''__proto__'' \<notin> set (map idKey (take i ?ops @ ?ops ! i # drop (Suc i) ?ops))"
    using d np split by simp_all
  then have d': "distinct (map idKey ?ops')" and np': "''__proto__'' \<notin> set (map idKey ?ops')"
    and gone: "x \<notin> set (map idKey ?ops')"
    using x by auto
  show "operationIndex (removeOperationIn st x) x = None"
    by (simp add: removed rebuildFrom_other [OF gone])
  have len: "length ?ops' = length ?ops - 1"
    using i by simp
  show "operationIndex (removeOperationIn st x) (idKey (?ops ! j)) = Some j" if "j < i"
  proof -
    from that i have j: "j < length ?ops'" and same: "?ops' ! j = ?ops ! j"
      by (simp_all add: nth_append)
    from rebuildFrom_nth [OF d' np' j, of 0 Map.empty] show ?thesis
      by (simp add: removed same)
  qed
  show "operationIndex (removeOperationIn st x) (idKey (?ops ! j)) = Some (j - 1)"
    if "i < j" "j < length ?ops"
  proof -
    from that i have j: "j - 1 < length ?ops'" by simp
    from i have li: "length (take i ?ops) = i" by simp
    from that have ge: "\<not> j - 1 < i" and idx: "Suc i + (j - 1 - i) = j" by simp_all
    have "?ops' ! (j - 1) = drop (Suc i) ?ops ! (j - 1 - i)"
      using ge by (simp only: nth_append li if_False)
    also have "\<dots> = ?ops ! (Suc i + (j - 1 - i))"
      using that by (intro nth_drop) simp
    finally have same: "?ops' ! (j - 1) = ?ops ! j"
      by (simp only: idx)
    from rebuildFrom_nth [OF d' np' j, of 0 Map.empty]
    have "rebuildFrom 0 ?ops' Map.empty (idKey (?ops ! j)) = Some (0 + (j - 1))"
      unfolding same .
    then show ?thesis
      by (simp add: removed)
  qed
qed

lemma remove_twice:
  assumes "ledgerInv A st" and "x \<notin> set objectPrototypeNames"
  shows "removeOperationIn (removeOperationIn st x) x = removeOperationIn st x"
proof (cases "operationIndex st x")
  case None
  from remove_absent_noop [OF None assms(2)] show ?thesis by simp
next
  case (Some i)
  from remove_present(5) [OF assms(1) Some] show ?thesis
    by (rule remove_absent_noop) (rule assms(2))
qed

lemma removeOperation_idempotent:
  assumes "distinct (addedTo r calls)" and "''__proto__'' \<notin> set (addedTo r calls)"
    and "list_all hasStringId (addedOps r calls)"
    and "x \<notin> set objectPrototypeNames"
  shows "removeOperation (removeOperation (run calls) r x) r x = removeOperation (run calls) r x"
  using remove_twice [OF ledgerInv_run [OF assms(1,2,3)] assms(4)]
  by (simp add: removeOperation_eq ledger_upd)

text \<open>
  Claim C8 (idempotent removal). The claim fails for an id that is the name of a
  property of \<^verbatim>\<open>Object.prototype\<close>: with operations a and b in the room and no entry
  for \<^verbatim>\<open>constructor\<close> in the index, \<^verbatim>\<open>removeOperation(room, 'constructor')\<close> reads the
  inherited function, which is not undefined, and \<^verbatim>\<open>splice\<close> converts it to position 0:
  the call removes a, and a second call removes b. For every other id, in a ledger of
  operations with distinct string ids, the claim holds
  (\<open>remove_absent_noop\<close>, \<open>remove_present\<close>, \<open>remove_twice\<close>,
  \<open>removeOperation_idempotent\<close>).
\<close>

theorem remove_inherited_name_removes_first:
  "operationIndex
     (ledger (run [AddOperation ''room1'' [(''id'', JStr ''a'')],
                   AddOperation ''room1'' [(''id'', JStr ''b'')]]) ''room1'') ''constructor'' = None
   \<and> operations
       (ledger (run [AddOperation ''room1'' [(''id'', JStr ''a'')],
                     AddOperation ''room1'' [(''id'', JStr ''b'')]]) ''room1'')
       = [[(''id'', JStr ''a'')], [(''id'', JStr ''b'')]]
   \<and> operations
       (ledger (removeOperation
                  (run [AddOperation ''room1'' [(''id'', JStr ''a'')],
                        AddOperation ''room1'' [(''id'', JStr ''b'')]]) ''room1'' ''constructor'')
          ''room1'')
       = [[(''id'', JStr ''b'')]]
   \<and> operations
       (ledger (removeOperation
                  (removeOperation
                     (run [AddOperation ''room1'' [(''id'', JStr ''a'')],
                           AddOperation ''room1'' [(''id'', JStr ''b'')]]) ''room1'' ''constructor'')
                  ''room1'' ''constructor'')
          ''room1'')
       = []"
proof -
  have st: "ledger (run [AddOperation ''room1'' [(''id'', JStr ''a'')],
                         AddOperation ''room1'' [(''id'', JStr ''b'')]]) ''room1''
      = \<lparr>operations = [[(''id'', JStr ''a'')], [(''id'', JStr ''b'')]], undoStack = [],
         operationIndex = [''a'' \<mapsto> 0, ''b'' \<mapsto> 1]\<rparr>"
    by (simp add: run_def addOperation_eq ledger_upd ledger_alt newRoomState_def
          addOperationTo_def indexWrite_def idKey_def)
  show ?thesis
    by (simp add: removeOperation_eq ledger_upd st removeOperationIn_def indexRead_def
          objectPrototypeNames_def rebuildIndex_def splice1_def indexDelete_def indexWrite_def
          idKey_def)
qed

end
